theory Spec2Isabelle
  imports Main "HOL-Library.Monad_Syntax"
begin

section \<open>Decoded JSON values\<close>

text \<open>
  The fetcher handles whatever \<^verbatim>\<open>response.json()\<close> decodes: \<^verbatim>\<open>None\<close>, booleans,
  integers, strings, lists and dicts. A dict is given by its items in insertion order
  (a decoded dict has no repeated key); \<^verbatim>\<open>d.get(k)\<close> is a lookup in that list.
  Decoded floats are left out of the model: the code never computes with a field value,
  and a float is not a model identifier.
\<close>

datatype json =
    JNull
  | JBool bool
  | JInt int
  | JStr string
  | JList "json list"
  | JObj "(string \<times> json) list"

text \<open>
  The exceptions that occur: the ones \<^verbatim>\<open>requests\<close> raises (\<^verbatim>\<open>Timeout\<close> is caught by
  a handler of its own, every other one by \<^verbatim>\<open>except Exception\<close>), and the two that the
  merge loop of \<^verbatim>\<open>run_etl_pipeline\<close> can raise: \<^verbatim>\<open>AttributeError\<close> for \<^verbatim>\<open>model.get\<close> on a
  value that is not a dict, \<^verbatim>\<open>TypeError\<close> for an unhashable dict key. All of them are
  subclasses of \<^verbatim>\<open>Exception\<close>; an interrupt of the process (\<^verbatim>\<open>KeyboardInterrupt\<close>,
  \<^verbatim>\<open>SystemExit\<close>) is not part of the model.
\<close>

datatype exn =
    Timeout
  | ConnectionError
  | HTTPError int
  | JSONDecodeError
  | AttributeError
  | TypeError

subsection \<open>Python dicts keyed by decoded values\<close>

text \<open>
  A hashable decoded value as a dict key. Python compares keys with \<^verbatim>\<open>==\<close>, under which
  \<^verbatim>\<open>True == 1\<close> and \<^verbatim>\<open>False == 0\<close>: a boolean and the integer it equals are one key.
  Lists and dicts are unhashable.
\<close>

datatype key = KNone | KInt int | KStr string

fun dict_key :: "json \<Rightarrow> exn + key" where
  "dict_key JNull = Inr KNone"
| "dict_key (JBool b) = Inr (KInt (if b then 1 else 0))"
| "dict_key (JInt i) = Inr (KInt i)"
| "dict_key (JStr s) = Inr (KStr s)"
| "dict_key (JList xs) = Inl TypeError"
| "dict_key (JObj items) = Inl TypeError"

text \<open>
  \<^verbatim>\<open>model.get("id")\<close>: the value of the field, \<^verbatim>\<open>None\<close> when the dict has no such field,
  \<^verbatim>\<open>AttributeError\<close> when \<^verbatim>\<open>model\<close> is not a dict.
\<close>

fun dict_get :: "json \<Rightarrow> string \<Rightarrow> exn + json" where
  "dict_get (JObj items) k = Inr (case map_of items k of None \<Rightarrow> JNull | Some v \<Rightarrow> v)"
| "dict_get other k = Inl AttributeError"

text \<open>
  A Python dict keeps insertion order: assigning to a key it already holds replaces the
  value in place, a new key goes to the end.
\<close>

fun dict_store :: "(key \<times> 'v) list \<Rightarrow> key \<Rightarrow> 'v \<Rightarrow> (key \<times> 'v) list" where
  "dict_store [] k v = [(k, v)]"
| "dict_store ((k', v') # d) k v =
     (if k' = k then (k', v) # d else (k', v') # dict_store d k v)"

definition dict_setitem :: "(key \<times> 'v) list \<Rightarrow> json \<Rightarrow> 'v \<Rightarrow> exn + (key \<times> 'v) list" where
  "dict_setitem d k v = (case dict_key k of Inl e \<Rightarrow> Inl e | Inr h \<Rightarrow> Inr (dict_store d h v))"

section \<open>The HTTP client and the program state\<close>

record request =
  url :: string
  params :: "(string \<times> json) list"
  req_headers :: "(string \<times> string) list"
  req_timeout :: int

text \<open>A response: its status code and its body, \<open>None\<close> when the body is not JSON.\<close>

record response =
  status_code :: int
  body :: "json option"

datatype http_outcome = Raises exn | Returns response

text \<open>
  The remote end is a parameter: a function from the request and the state of the world
  to the outcome of \<^verbatim>\<open>requests.get\<close> and the next state of the world.
\<close>

type_synonym 'w http = "request \<Rightarrow> 'w \<Rightarrow> http_outcome \<times> 'w"

datatype log_msg =
    GlobalFetchInitiated int string
  | Extracted nat string
  | GlobalTimeout string
  | GlobalFetchFailed exn
  | CategoryFetchFailed string string exn
  | PhaseStarted nat
  | EtlComplete nat

text \<open>
  The state a method of \<^verbatim>\<open>ModelFetcher\<close> runs in: the attributes of \<^verbatim>\<open>self\<close>, the world
  behind the HTTP client, the requests sent so far and the lines logged so far.
\<close>

record fetcher =
  timeout :: int
  headers :: "(string \<times> string) list"

record 'w state = fetcher +
  world :: 'w
  sent :: "request list"
  logged :: "log_msg list"

definition BASE_URL :: string where
  "BASE_URL = ''https://huggingface.co/api/models''"

text \<open>
  \<^verbatim>\<open>__init__\<close>: \<^verbatim>\<open>HF_TOKEN\<close> is the environment variable, \<open>None\<close> when unset; an empty
  token is falsy and gives no header either.
\<close>

definition ModelFetcher_init :: "string option \<Rightarrow> int \<Rightarrow> 'w \<Rightarrow> 'w state" where
  "ModelFetcher_init HF_TOKEN t w =
     \<lparr>timeout = t,
      headers = (case HF_TOKEN of
                   None \<Rightarrow> []
                 | Some tok \<Rightarrow> if tok = [] then [] else [(''Authorization'', ''Bearer '' @ tok)]),
      world = w, sent = [], logged = []\<rparr>"

definition logger :: "log_msg \<Rightarrow> 'w state \<Rightarrow> 'w state" where
  "logger m s = s\<lparr>logged := logged s @ [m]\<rparr>"

definition requests_get :: "'w http \<Rightarrow> request \<Rightarrow> 'w state \<Rightarrow> http_outcome \<times> 'w state" where
  "requests_get http r s =
     (case http r (world s) of (out, w) \<Rightarrow> (out, s\<lparr>world := w, sent := sent s @ [r]\<rparr>))"

text \<open>\<^verbatim>\<open>Response.raise_for_status\<close> raises for the statuses 400 to 599.\<close>

definition raise_for_status :: "response \<Rightarrow> exn + unit" where
  "raise_for_status r =
     (if 400 \<le> status_code r \<and> status_code r < 600 then Inl (HTTPError (status_code r))
      else Inr ())"

definition response_json :: "response \<Rightarrow> exn + json" where
  "response_json r = (case body r of None \<Rightarrow> Inl JSONDecodeError | Some d \<Rightarrow> Inr d)"

text \<open>
  The three statements both fetch methods run inside \<^verbatim>\<open>try\<close>: the call itself,
  \<^verbatim>\<open>response.raise_for_status()\<close> and \<^verbatim>\<open>response.json()\<close>.
\<close>

definition checked_json :: "http_outcome \<Rightarrow> exn + json" where
  "checked_json out =
     (case out of
        Raises e \<Rightarrow> Inl e
      | Returns r \<Rightarrow> (case raise_for_status r of Inl e \<Rightarrow> Inl e | Inr u \<Rightarrow> response_json r))"

section \<open>The fetch strategies\<close>

definition global_request :: "'w state \<Rightarrow> int \<Rightarrow> string \<Rightarrow> request" where
  "global_request s limit sort_by =
     \<lparr>url = BASE_URL,
      params = [(''limit'', JInt limit), (''sort'', JStr sort_by),
                (''direction'', JInt (- 1)), (''full'', JBool True)],
      req_headers = headers s,
      req_timeout = timeout s\<rparr>"

definition fetch_global_top_models ::
  "'w http \<Rightarrow> int \<Rightarrow> string \<Rightarrow> 'w state \<Rightarrow> json list \<times> 'w state" where
  "fetch_global_top_models http limit sort_by s0 =
     (let s1 = logger (GlobalFetchInitiated limit sort_by) s0 in
      case requests_get http (global_request s1 limit sort_by) s1 of (out, s2) \<Rightarrow>
        (case checked_json out of
           Inr data \<Rightarrow>
             (case data of
                JList xs \<Rightarrow> (xs, logger (Extracted (length xs) sort_by) s2)
              | _ \<Rightarrow> ([], s2))
         | Inl Timeout \<Rightarrow> ([], logger (GlobalTimeout sort_by) s2)
         | Inl e \<Rightarrow> ([], logger (GlobalFetchFailed e) s2)))"

definition category_request :: "'w state \<Rightarrow> string \<Rightarrow> string \<Rightarrow> int \<Rightarrow> request" where
  "category_request s tag library limit =
     \<lparr>url = BASE_URL,
      params = [(''pipeline_tag'', JStr tag), (''library'', JStr library),
                (''limit'', JInt limit), (''sort'', JStr ''downloads'')],
      req_headers = headers s,
      req_timeout = 25\<rparr>"

text \<open>
  \<^verbatim>\<open>fetch_category_specific\<close> returns \<^verbatim>\<open>response.json()\<close> as it is, so its result is any
  decoded value, not only a list.
\<close>

definition fetch_category_specific ::
  "'w http \<Rightarrow> string \<Rightarrow> string \<Rightarrow> int \<Rightarrow> 'w state \<Rightarrow> json \<times> 'w state" where
  "fetch_category_specific http tag library limit s0 =
     (case requests_get http (category_request s0 tag library limit) s0 of (out, s1) \<Rightarrow>
        (case checked_json out of
           Inr data \<Rightarrow> (data, s1)
         | Inl e \<Rightarrow> (JList [], logger (CategoryFetchFailed tag library e) s1)))"

section \<open>The ETL pipeline\<close>

text \<open>
  The loop \<^verbatim>\<open>for model in ...: unique_models[model.get("id")] = model\<close>. An exception
  leaves the loop, and \<^verbatim>\<open>run_etl_pipeline\<close> too, which has no handler.
\<close>

fun merge_models :: "(key \<times> json) list \<Rightarrow> json list \<Rightarrow> exn + (key \<times> json) list" where
  "merge_models unique_models [] = Inr unique_models"
| "merge_models unique_models (model # rest) =
     (case dict_get model ''id'' of
        Inl e \<Rightarrow> Inl e
      | Inr k \<Rightarrow>
          (case dict_setitem unique_models k model of
             Inl e \<Rightarrow> Inl e
           | Inr unique_models' \<Rightarrow> merge_models unique_models' rest))"

definition run_etl_pipeline :: "'w http \<Rightarrow> 'w state \<Rightarrow> (exn + json list) \<times> 'w state" where
  "run_etl_pipeline http s0 =
     (case fetch_global_top_models http 1000 ''downloads'' (logger (PhaseStarted 1) s0) of
        (models1, s1) \<Rightarrow>
     (case merge_models [] models1 of Inl e \<Rightarrow> (Inl e, s1) | Inr unique_models1 \<Rightarrow>
     (case fetch_global_top_models http 1000 ''likes'' (logger (PhaseStarted 2) s1) of
        (models2, s2) \<Rightarrow>
     (case merge_models unique_models1 models2 of Inl e \<Rightarrow> (Inl e, s2) | Inr unique_models2 \<Rightarrow>
     (case fetch_global_top_models http 1000 ''likes7d'' (logger (PhaseStarted 3) s2) of
        (models3, s3) \<Rightarrow>
     (case merge_models unique_models2 models3 of Inl e \<Rightarrow> (Inl e, s3) | Inr unique_models3 \<Rightarrow>
     (case fetch_global_top_models http 100 ''createdAt'' (logger (PhaseStarted 4) s3) of
        (models4, s4) \<Rightarrow>
     (case merge_models unique_models3 models4 of Inl e \<Rightarrow> (Inl e, s4) | Inr unique_models \<Rightarrow>
        (Inr (map snd unique_models),
         logger (EtlComplete (length unique_models)) s4)))))))))"

section \<open>Notions the properties are stated with\<close>

text \<open>
  The identifier a record is stored under: the dict key of \<^verbatim>\<open>model.get("id")\<close>, or the
  exception that the assignment \<^verbatim>\<open>unique_models[model.get("id")] = model\<close> raises.
\<close>

definition ident :: "json \<Rightarrow> exn + key" where
  "ident model = (case dict_get model ''id'' of Inl e \<Rightarrow> Inl e | Inr v \<Rightarrow> dict_key v)"

text \<open>A record the merge loop can store: a dict whose \<^verbatim>\<open>id\<close> is hashable or absent.\<close>

definition mergeable :: "json \<Rightarrow> bool" where
  "mergeable model = (case ident model of Inl e \<Rightarrow> False | Inr k \<Rightarrow> True)"

text \<open>A record with a missing or null identifier field.\<close>

fun no_identifier :: "json \<Rightarrow> bool" where
  "no_identifier (JObj items) =
     (case map_of items ''id'' of None \<Rightarrow> True | Some JNull \<Rightarrow> True | Some v \<Rightarrow> False)"
| "no_identifier other = False"

fun is_list :: "json \<Rightarrow> bool" where
  "is_list (JList xs) = True"
| "is_list other = False"

text \<open>The elements of a list in the order of their first occurrence.\<close>

fun first_seen :: "'a list \<Rightarrow> 'a list" where
  "first_seen [] = []"
| "first_seen (x # xs) = x # filter (\<lambda>y. y \<noteq> x) (first_seen xs)"

text \<open>
  What the four fetches of \<^verbatim>\<open>run_etl_pipeline\<close> return, one after the other from the
  state \<open>s0\<close>, and the records of the four phases in processing order.
\<close>

definition phase_results :: "'w http \<Rightarrow> 'w state \<Rightarrow> json list list" where
  "phase_results http s0 =
     (case fetch_global_top_models http 1000 ''downloads'' (logger (PhaseStarted 1) s0) of
        (models1, s1) \<Rightarrow>
     (case fetch_global_top_models http 1000 ''likes'' (logger (PhaseStarted 2) s1) of
        (models2, s2) \<Rightarrow>
     (case fetch_global_top_models http 1000 ''likes7d'' (logger (PhaseStarted 3) s2) of
        (models3, s3) \<Rightarrow>
     (case fetch_global_top_models http 100 ''createdAt'' (logger (PhaseStarted 4) s3) of
        (models4, s4) \<Rightarrow> [models1, models2, models3, models4]))))"

definition all_records :: "'w http \<Rightarrow> 'w state \<Rightarrow> json list" where
  "all_records http s = concat (phase_results http s)"

text \<open>The four requests of the pipeline, in phase order.\<close>

definition pipeline_requests :: "'w state \<Rightarrow> request list" where
  "pipeline_requests s =
     [global_request s 1000 ''downloads'', global_request s 1000 ''likes'',
      global_request s 1000 ''likes7d'', global_request s 100 ''createdAt'']"

text \<open>
  A failed call for a global fetch: the call raised, the status is an error status, the
  body is not JSON, or the decoded body is not a list.
\<close>

definition fetch_failed :: "http_outcome \<Rightarrow> bool" where
  "fetch_failed out = (case checked_json out of Inl e \<Rightarrow> True | Inr data \<Rightarrow> \<not> is_list data)"

subsection \<open>Remote ends to run the code against\<close>

text \<open>A remote end that answers the calls with a given list of outcomes, in order.\<close>

fun scripted :: "http_outcome list http" where
  "scripted r [] = (Raises ConnectionError, [])"
| "scripted r (out # rest) = (out, rest)"

text \<open>A remote end that never answers in time.\<close>

definition unreachable :: "unit http" where
  "unreachable r w = (Raises Timeout, w)"

definition ok :: "json \<Rightarrow> http_outcome" where
  "ok data = Returns \<lparr>status_code = 200, body = Some data\<rparr>"

definition record_a1 :: json where
  "record_a1 = JObj [(''id'', JStr ''a''), (''downloads'', JInt 10)]"

definition record_a2 :: json where
  "record_a2 = JObj [(''id'', JStr ''a''), (''downloads'', JInt 0), (''likes'', JInt 99)]"

definition record_b :: json where
  "record_b = JObj [(''id'', JStr ''b'')]"

definition scenario :: "http_outcome list state" where
  "scenario = ModelFetcher_init None 45
     [ok (JList [record_a1]), ok (JList [record_a2]), ok (JList []), ok (JList [record_b])]"

definition scenario_with_token :: "http_outcome list state" where
  "scenario_with_token = ModelFetcher_init (Some ''hf_token'') 10
     [ok (JList [record_a1]), ok (JList [record_a2]), ok (JList []), ok (JList [record_b])]"

definition unhashable_id :: "http_outcome list state" where
  "unhashable_id = ModelFetcher_init None 45
     [ok (JList []), ok (JList []), ok (JList []), ok (JList [JObj [(''id'', JList [])]])]"

definition not_a_mapping :: "http_outcome list state" where
  "not_a_mapping = ModelFetcher_init None 45
     [ok (JList [JStr ''a'']), ok (JList []), ok (JList []), ok (JList [])]"

definition nameless :: "http_outcome list state" where
  "nameless = ModelFetcher_init None 45
     [ok (JList [JObj [(''likes'', JInt 1)], record_b]),
      ok (JList [JObj [(''id'', JNull), (''likes'', JInt 2)]]),
      ok (JList []), ok (JList [])]"

definition overwritten :: "http_outcome list state" where
  "overwritten = ModelFetcher_init None 45
     [ok (JList [record_a1, record_b]), ok (JList [record_a2]), ok (JList []), ok (JList [])]"

definition record_a3 :: json where
  "record_a3 = JObj [(''id'', JStr ''a''), (''downloads'', JInt 5)]"

definition three_phases :: "http_outcome list state" where
  "three_phases = ModelFetcher_init None 45
     [ok (JList [record_a1]), ok (JList [record_a2]), ok (JList [record_a3]), ok (JList [])]"

definition bad_second_phase :: "http_outcome list state" where
  "bad_second_phase = ModelFetcher_init None 45
     [ok (JList [record_a1]), ok (JList [JStr ''a'']), ok (JList [record_b]), ok (JList [])]"

definition error_object :: "http_outcome list state" where
  "error_object = ModelFetcher_init None 45 [ok (JObj [(''error'', JStr ''Invalid username or password.'')])]"

section \<open>The schema of the models table\<close>

text \<open>
  \<^verbatim>\<open>HFModel\<close> is a pydantic model: ten fields, each with a type and, but for \<^verbatim>\<open>model_id\<close>,
  a default; no field declares a constraint or a validator. What the class adds to
  pydantic is modelled, the conversion of a Python value to a field's type is pydantic's
  and is taken as given: a keyword argument is \<open>Omitted\<close>, or \<open>Given v\<close> when pydantic
  converts it to the value \<open>v\<close> of the declared type (an integer field reads \<^verbatim>\<open>7\<close>, \<^verbatim>\<open>True\<close>
  and \<^verbatim>\<open>"12"\<close> as 7, 1 and 12, a boolean field reads \<^verbatim>\<open>1\<close> as true, an optional field reads
  \<^verbatim>\<open>None\<close> as \<open>None\<close>), or \<open>Invalid\<close> when pydantic refuses it for that type. So every
  call that pydantic accepts is a value of \<open>HFModel_kwargs\<close>. A point in time is an
  integer; \<open>now\<close> is what \<^verbatim>\<open>datetime.now\<close> returns when the record is created. The result
  \<open>None\<close> stands for pydantic's \<^verbatim>\<open>ValidationError\<close>.
\<close>

type_synonym datetime = int

datatype 'a argument = Omitted | Given 'a | Invalid

record HFModel =
  model_id :: string
  pipeline_tag :: "string option"
  library_name :: "string option"
  author :: "string option"
  downloads :: int
  likes :: int
  "private" :: bool
  is_active :: bool
  last_modified :: "datetime option"
  created_at :: datetime








section \<open>The merge loop\<close>

lemma merge_models_step:
  "merge_models um (m # rest) =
     (case ident m of Inl e \<Rightarrow> Inl e | Inr k \<Rightarrow> merge_models (dict_store um k m) rest)"
  by (simp add: ident_def dict_setitem_def split: sum.splits)

lemma merge_models_append:
  "merge_models um (xs @ ys) =
     (case merge_models um xs of Inl e \<Rightarrow> Inl e | Inr um' \<Rightarrow> merge_models um' ys)"
proof (induction xs arbitrary: um)
  case Nil
  show ?case by simp
next
  case (Cons m xs)
  show ?case
    by (simp only: append_Cons merge_models_step Cons.IH split: sum.splits) simp
qed

lemma run_etl_pipeline_merge:
  "fst (run_etl_pipeline http s) =
     (case merge_models [] (concat (phase_results http s)) of
        Inl e \<Rightarrow> Inl e
      | Inr um \<Rightarrow> Inr (map snd um))"
  by (simp add: run_etl_pipeline_def phase_results_def merge_models_append
      split: prod.splits sum.splits)

lemma map_fst_dict_store:
  "map fst (dict_store d k v) = (if k \<in> fst ` set d then map fst d else map fst d @ [k])"
  by (induction d) force+

lemma map_of_dict_store: "map_of (dict_store d k v) = (map_of d)(k \<mapsto> v)"
  by (induction d) (auto simp: fun_eq_iff)

lemma set_dict_store: "set (dict_store d k v) \<subseteq> insert (k, v) (set d)"
  by (induction d) (auto split: if_splits)

lemma first_seen_set [simp]: "set (first_seen xs) = set xs"
  by (induction xs) auto

lemma first_seen_distinct [simp]: "distinct (first_seen xs)"
  by (induction xs) auto

declare merge_models.simps(2) [simp del]

lemma first_seen_filter: "first_seen (filter P xs) = filter P (first_seen xs)"
proof (induction xs)
  case Nil
  show ?case by simp
next
  case (Cons x xs)
  show ?case
  proof (cases "P x")
    case True
    then show ?thesis using Cons.IH by (simp add: conj_commute)
  next
    case False
    then have "filter P (filter (\<lambda>y. y \<noteq> x) (first_seen xs)) = filter P (first_seen xs)"
      by (auto intro: filter_cong)
    with False show ?thesis using Cons.IH by simp
  qed
qed

lemma first_seen_seen: "x \<in> set xs \<Longrightarrow> first_seen (xs @ x # ys) = first_seen (xs @ ys)"
proof (induction xs)
  case Nil
  then show ?case by simp
next
  case (Cons a xs)
  show ?case
  proof (cases "x = a")
    case True
    have "filter (\<lambda>y. y \<noteq> a) (first_seen (xs @ a # ys)) = first_seen (filter (\<lambda>y. y \<noteq> a) (xs @ a # ys))"
      by (simp only: first_seen_filter)
    also have "\<dots> = first_seen (filter (\<lambda>y. y \<noteq> a) (xs @ ys))" by simp
    also have "\<dots> = filter (\<lambda>y. y \<noteq> a) (first_seen (xs @ ys))"
      by (simp only: first_seen_filter)
    finally show ?thesis using True by simp
  next
    case False
    with Cons show ?thesis by simp
  qed
qed

lemma first_seen_distinct_id: "distinct xs \<Longrightarrow> first_seen xs = xs"
  by (induction xs) (auto intro: filter_True)

lemma merge_models_keys:
  "merge_models um xs = Inr um' \<Longrightarrow> distinct (map fst um) \<Longrightarrow>
   map Inr (map fst um') = first_seen (map Inr (map fst um) @ map ident xs)"
proof (induction xs arbitrary: um)
  case Nil
  from Nil.prems(2) have "distinct (map (Inr :: key \<Rightarrow> exn + key) (map fst um))"
    by (subst distinct_map) (simp add: inj_on_def)
  from first_seen_distinct_id [OF this] Nil.prems(1) show ?case by simp
next
  case (Cons m rest)
  from Cons.prems(1) obtain k where k: "ident m = Inr k"
    and rest: "merge_models (dict_store um k m) rest = Inr um'"
    by (auto simp: merge_models_step split: sum.splits)
  have d: "distinct (map fst (dict_store um k m))"
    using Cons.prems(2) by (auto simp: map_fst_dict_store)
  have "map Inr (map fst um') = first_seen (map Inr (map fst (dict_store um k m)) @ map ident rest)"
    by (rule Cons.IH [OF rest d])
  also have "\<dots> = first_seen (map Inr (map fst um) @ map ident (m # rest))"
  proof (cases "k \<in> fst ` set um")
    case True
    then have "(Inr k :: exn + key) \<in> set (map Inr (map fst um))" by auto
    from first_seen_seen [OF this] True show ?thesis
      by (simp add: map_fst_dict_store k)
  next
    case False
    then show ?thesis by (simp add: map_fst_dict_store k)
  qed
  finally show ?case .
qed

lemma merge_models_values:
  "merge_models um xs = Inr um' \<Longrightarrow> snd ` set um' \<subseteq> snd ` set um \<union> set xs"
proof (induction xs arbitrary: um)
  case Nil
  then show ?case by simp
next
  case (Cons m rest)
  from Cons.prems(1) obtain k where k: "ident m = Inr k"
    and rest: "merge_models (dict_store um k m) rest = Inr um'"
    by (auto simp: merge_models_step split: sum.splits)
  have a: "snd ` set um' \<subseteq> snd ` set (dict_store um k m) \<union> set rest"
    by (rule Cons.IH [OF rest])
  have "snd ` set (dict_store um k m) \<subseteq> snd ` insert (k, m) (set um)"
    by (rule image_mono) (rule set_dict_store)
  then have b: "snd ` set (dict_store um k m) \<subseteq> insert m (snd ` set um)"
    by simp
  from a b show ?case by auto
qed

lemma merge_models_returns:
  "(\<exists>um'. merge_models um xs = Inr um') \<longleftrightarrow> (\<forall>m \<in> set xs. \<exists>k. ident m = Inr k)"
proof (induction xs arbitrary: um)
  case Nil
  show ?case by simp
next
  case (Cons m rest)
  show ?case
  proof (cases "ident m")
    case (Inl e)
    then show ?thesis by (auto simp: merge_models_step)
  next
    case (Inr k)
    then show ?thesis using Cons.IH [of "dict_store um k m"] by (simp add: merge_models_step)
  qed
qed

lemma merge_models_lookup:
  "merge_models um xs = Inr um' \<Longrightarrow>
   map_of um' k =
     (if filter (\<lambda>m. ident m = Inr k) xs = [] then map_of um k
      else Some (last (filter (\<lambda>m. ident m = Inr k) xs)))"
proof (induction xs arbitrary: um)
  case Nil
  then show ?case by simp
next
  case (Cons m rest)
  from Cons.prems obtain k' where k': "ident m = Inr k'"
    and rest: "merge_models (dict_store um k' m) rest = Inr um'"
    by (auto simp: merge_models_step split: sum.splits)
  show ?case
    unfolding Cons.IH [OF rest] using k' by (simp add: map_of_dict_store)
qed

lemma distinct_map_snd:
  "distinct (map fst d) \<Longrightarrow> map snd d = map (\<lambda>k. the (map_of d k)) (map fst d)"
proof (induction d)
  case Nil
  show ?case by simp
next
  case (Cons p d)
  obtain k v where p: "p = (k, v)" by (cases p)
  from Cons.prems p have "k \<notin> set (map fst d)" by simp
  then have "map (\<lambda>k'. the (map_of (p # d) k')) (map fst d) =
      map (\<lambda>k'. the (map_of d k')) (map fst d)"
    by (intro map_cong refl) (auto simp: p)
  with Cons p show ?case by simp
qed

lemma run_etl_pipeline_output:
  assumes "fst (run_etl_pipeline http s) = Inr out"
  shows "out = map (\<lambda>i. last (filter (\<lambda>m. ident m = i) (all_records http s)))
                 (first_seen (map ident (all_records http s)))"
proof -
  let ?all = "all_records http s"
  from assms obtain um where um: "merge_models [] ?all = Inr um" and out: "out = map snd um"
    by (auto simp: run_etl_pipeline_merge all_records_def split: sum.splits)
  from merge_models_keys [OF um] have keys: "map Inr (map fst um) = first_seen (map ident ?all)"
    by simp
  have "distinct (map (Inr :: key \<Rightarrow> exn + key) (map fst um))"
    unfolding keys by simp
  then have d: "distinct (map fst um)"
    by (auto simp: distinct_map inj_on_def)
  have "map snd um = map (\<lambda>k. the (map_of um k)) (map fst um)"
    by (rule distinct_map_snd [OF d])
  also have "\<dots> = map (\<lambda>k. last (filter (\<lambda>m. ident m = Inr k) ?all)) (map fst um)"
  proof (rule map_cong [OF refl])
    fix k
    assume "k \<in> set (map fst um)"
    then have "Inr k \<in> set (map Inr (map fst um) :: (exn + key) list)"
      by (simp only: set_map) (rule imageI)
    then have "Inr k \<in> set (map ident ?all)"
      unfolding keys by simp
    then have "filter (\<lambda>m. ident m = Inr k) ?all \<noteq> []"
      by (auto simp: filter_empty_conv)
    then show "the (map_of um k) = last (filter (\<lambda>m. ident m = Inr k) ?all)"
      by (simp add: merge_models_lookup [OF um])
  qed
  also have "\<dots> = map (\<lambda>i. last (filter (\<lambda>m. ident m = i) ?all)) (map Inr (map fst um))"
    by (simp add: comp_def)
  finally show ?thesis
    unfolding out keys .
qed

lemma run_etl_pipeline_idents:
  assumes "fst (run_etl_pipeline http s) = Inr out"
  shows "map ident out = first_seen (map ident (all_records http s))"
proof -
  let ?all = "all_records http s"
  have "map ident out = map (\<lambda>i. ident (last (filter (\<lambda>m. ident m = i) ?all)))
      (first_seen (map ident ?all))"
    unfolding run_etl_pipeline_output [OF assms] by (simp add: comp_def)
  also have "\<dots> = map (\<lambda>i. i) (first_seen (map ident ?all))"
  proof (rule map_cong [OF refl])
    fix i
    assume "i \<in> set (first_seen (map ident ?all))"
    then have "filter (\<lambda>m. ident m = i) ?all \<noteq> []"
      by (auto simp: filter_empty_conv)
    from last_in_set [OF this] show "ident (last (filter (\<lambda>m. ident m = i) ?all)) = i"
      by simp
  qed
  finally show ?thesis by simp
qed

lemma run_etl_pipeline_returns:
  "(\<exists>out. fst (run_etl_pipeline http s) = Inr out) \<longleftrightarrow>
   (\<forall>m \<in> set (all_records http s). \<exists>k. ident m = Inr k)"
  unfolding merge_models_returns [of "[]", symmetric] all_records_def run_etl_pipeline_merge
  by (auto split: sum.splits)

lemma run_etl_pipeline_subset:
  assumes "fst (run_etl_pipeline http s) = Inr out"
  shows "set out \<subseteq> set (all_records http s)"
proof -
  from assms obtain um where um: "merge_models [] (all_records http s) = Inr um"
    and out: "out = map snd um"
    by (auto simp: run_etl_pipeline_merge all_records_def split: sum.splits)
  from merge_models_values [OF um] show ?thesis by (simp add: out)
qed

lemma mergeable_iff: "mergeable m \<longleftrightarrow> (\<exists>k. ident m = Inr k)"
  by (cases "ident m") (simp_all add: mergeable_def)

lemma length_phase_results [simp]: "length (phase_results http s) = 4"
  by (simp add: phase_results_def split: prod.splits)

lemma filter_eq_distinct:
  "distinct xs \<Longrightarrow> filter (\<lambda>j. j = i) xs = (if i \<in> set xs then [i] else [])"
  by (induction xs) auto

lemma ident_last_filter:
  "i \<in> set (map ident xs) \<Longrightarrow> ident (last (filter (\<lambda>m. ident m = i) xs)) = i"
proof -
  assume "i \<in> set (map ident xs)"
  then have "filter (\<lambda>m. ident m = i) xs \<noteq> []"
    by (auto simp: filter_empty_conv)
  from last_in_set [OF this] show ?thesis by simp
qed

lemma run_etl_pipeline_filter:
  assumes "fst (run_etl_pipeline http s) = Inr out"
  shows "filter (\<lambda>m. ident m = i) out =
     (if i \<in> set (map ident (all_records http s))
      then [last (filter (\<lambda>m. ident m = i) (all_records http s))] else [])"
proof -
  let ?all = "all_records http s"
  let ?g = "\<lambda>i. last (filter (\<lambda>m. ident m = i) ?all)"
  let ?ids = "first_seen (map ident ?all)"
  have "filter (\<lambda>m. ident m = i) (map ?g ?ids) = map ?g (filter (\<lambda>j. ident (?g j) = i) ?ids)"
    by (simp add: filter_map comp_def)
  also have "filter (\<lambda>j. ident (?g j) = i) ?ids = filter (\<lambda>j. j = i) ?ids"
    by (rule filter_cong [OF refl]) (simp add: ident_last_filter)
  also have "\<dots> = (if i \<in> set (map ident ?all) then [i] else [])"
    by (simp add: filter_eq_distinct)
  finally show ?thesis
    unfolding run_etl_pipeline_output [OF assms, symmetric] by simp
qed

lemma no_identifier_iff: "no_identifier m \<longleftrightarrow> ident m = Inr KNone"
proof (cases m)
  case (JObj items)
  show ?thesis
  proof (cases "map_of items ''id''")
    case None
    with JObj show ?thesis by (simp add: ident_def)
  next
    case (Some v)
    with JObj show ?thesis by (cases v) (simp_all add: ident_def)
  qed
qed (simp_all add: ident_def)

lemma dict_store_twice: "dict_store (dict_store d k v) k v' = dict_store d k v'"
  by (induction d) auto

section \<open>Runs against a scripted remote end\<close>

lemma fetch_global_top_models_scripted:
  "world s = ok (JList xs) # rest \<Longrightarrow>
   fetch_global_top_models scripted limit sort_by s =
     (xs, s\<lparr>world := rest,
           sent := sent s @ [global_request s limit sort_by],
           logged := logged s @ [GlobalFetchInitiated limit sort_by, Extracted (length xs) sort_by]\<rparr>)"
  by (simp add: fetch_global_top_models_def logger_def requests_get_def checked_json_def
      raise_for_status_def response_json_def ok_def global_request_def)

lemma scenario_phases:
  "phase_results scripted scenario = [[record_a1], [record_a2], [], [record_b]]"
  by (simp add: phase_results_def scenario_def ModelFetcher_init_def
      fetch_global_top_models_scripted logger_def)

lemma unhashable_id_phases:
  "phase_results scripted unhashable_id = [[], [], [], [JObj [(''id'', JList [])]]]"
  by (simp add: phase_results_def unhashable_id_def ModelFetcher_init_def
      fetch_global_top_models_scripted logger_def)

lemma ident_records [simp]:
  "ident record_a1 = Inr (KStr ''a'')" "ident record_a2 = Inr (KStr ''a'')"
  "ident record_b = Inr (KStr ''b'')"
  by (simp_all add: ident_def record_a1_def record_a2_def record_b_def)

lemma records_differ [simp]: "record_a1 \<noteq> record_a2" "record_a2 \<noteq> record_b" "record_a1 \<noteq> record_b"
  by (simp_all add: record_a1_def record_a2_def record_b_def)

lemma overwritten_phases:
  "phase_results scripted overwritten = [[record_a1, record_b], [record_a2], [], []]"
  by (simp add: phase_results_def overwritten_def ModelFetcher_init_def
      fetch_global_top_models_scripted logger_def)

lemma nameless_phases:
  "phase_results scripted nameless =
     [[JObj [(''likes'', JInt 1)], record_b], [JObj [(''id'', JNull), (''likes'', JInt 2)]], [], []]"
  by (simp add: phase_results_def nameless_def ModelFetcher_init_def
      fetch_global_top_models_scripted logger_def)

lemma three_phases_phases:
  "phase_results scripted three_phases = [[record_a1], [record_a2], [record_a3], []]"
  by (simp add: phase_results_def three_phases_def ModelFetcher_init_def
      fetch_global_top_models_scripted logger_def)

lemma bad_second_phase_phases:
  "phase_results scripted bad_second_phase = [[record_a1], [JStr ''a''], [record_b], []]"
  by (simp add: phase_results_def bad_second_phase_def ModelFetcher_init_def
      fetch_global_top_models_scripted logger_def)

lemma ident_record_a3 [simp]: "ident record_a3 = Inr (KStr ''a'')"
  by (simp add: ident_def record_a3_def)

lemma run_etl_pipeline_kept:
  assumes out: "fst (run_etl_pipeline http s) = Inr out"
    and j: "j < 4" and r2: "r2 \<in> set (phase_results http s ! j)"
  shows "filter (\<lambda>m. ident m = ident r2) out =
           [last (filter (\<lambda>m. ident m = ident r2) (concat (drop j (phase_results http s))))]"
    and "last (filter (\<lambda>m. ident m = ident r2) (concat (drop j (phase_results http s)))) =
           last (filter (\<lambda>m. ident m = ident r2) (all_records http s))"
    and "last (filter (\<lambda>m. ident m = ident r2) (concat (drop j (phase_results http s))))
           \<in> set (concat (drop j (phase_results http s)))"
    and "ident (last (filter (\<lambda>m. ident m = ident r2) (concat (drop j (phase_results http s)))))
           = ident r2"
proof -
  let ?ps = "phase_results http s"
  let ?early = "concat (take j ?ps)" and ?late = "concat (drop j ?ps)"
  let ?P = "\<lambda>m. ident m = ident r2"
  from j have j': "j < length ?ps" by simp
  have all: "all_records http s = ?early @ ?late"
    unfolding all_records_def by (simp only: concat_append [symmetric] append_take_drop_id)
  from j' have "drop j ?ps = ?ps ! j # drop (Suc j) ?ps"
    by (rule Cons_nth_drop_Suc [symmetric])
  with r2 have late: "r2 \<in> set ?late" by simp
  then have ne: "filter ?P ?late \<noteq> []"
    by (auto simp: filter_empty_conv)
  from ne show same: "last (filter ?P ?late) = last (filter ?P (all_records http s))"
    by (simp add: all)
  from late have "ident r2 \<in> set (map ident (all_records http s))"
    by (simp add: all)
  then show "filter ?P out = [last (filter ?P ?late)]"
    by (simp add: run_etl_pipeline_filter [OF out] same)
  from last_in_set [OF ne] show "last (filter ?P ?late) \<in> set ?late"
    and "ident (last (filter ?P ?late)) = ident r2"
    by (simp_all only: set_filter mem_Collect_eq)
qed

section \<open>Properties of the pipeline\<close>

text \<open>
  C1, as amended. When every record of the four phases is mergeable (a dict whose \<^verbatim>\<open>id\<close>
  is absent, null, a boolean, an integer or a string), \<^verbatim>\<open>run_etl_pipeline\<close> returns a
  collection, it holds exactly one record for each identifier that occurs in the phases,
  no record under any other identifier, and only records of the phases. Identifiers
  are compared as Python dict keys.
\<close>

theorem run_etl_pipeline_identifiers:
  assumes "list_all mergeable (all_records http s)"
  shows "\<exists>out. fst (run_etl_pipeline http s) = Inr out
           \<and> distinct (map ident out)
           \<and> set (map ident out) = set (map ident (all_records http s))
           \<and> set out \<subseteq> set (all_records http s)"
proof -
  from assms have "\<forall>m \<in> set (all_records http s). \<exists>k. ident m = Inr k"
    by (simp add: list_all_iff mergeable_iff)
  then obtain out where out: "fst (run_etl_pipeline http s) = Inr out"
    unfolding run_etl_pipeline_returns [symmetric] ..
  have "distinct (map ident out)" "set (map ident out) = set (map ident (all_records http s))"
    unfolding run_etl_pipeline_idents [OF out] by simp_all
  with out run_etl_pipeline_subset [OF out] show ?thesis by blast
qed

theorem run_etl_pipeline_identifiers_witness:
  "list_all mergeable (all_records scripted scenario)
   \<and> fst (run_etl_pipeline scripted scenario) = Inr [record_a2, record_b]
   \<and> distinct (map ident [record_a2, record_b])
   \<and> map ident [record_a2, record_b] = [Inr (KStr ''a''), Inr (KStr ''b'')]
   \<and> set (map ident (all_records scripted scenario)) = {Inr (KStr ''a''), Inr (KStr ''b'')}"
proof -
  have m: "list_all mergeable (all_records scripted scenario)"
    by (simp add: all_records_def scenario_phases mergeable_def)
  have r: "fst (run_etl_pipeline scripted scenario) = Inr [record_a2, record_b]"
    by (simp add: run_etl_pipeline_merge scenario_phases merge_models_step)
  from run_etl_pipeline_identifiers [OF m] m r show ?thesis
    by (simp add: all_records_def scenario_phases insert_commute)
qed

text \<open>
  Where C1 fails as stated: the fourth phase returns the record \<^verbatim>\<open>{"id": []}\<close>, the
  assignment raises \<^verbatim>\<open>TypeError\<close> (a list is unhashable), and no collection is returned.
\<close>

theorem run_etl_pipeline_unhashable_id:
  "phase_results scripted unhashable_id = [[], [], [], [JObj [(''id'', JList [])]]]
   \<and> fst (run_etl_pipeline scripted unhashable_id) = Inl TypeError"
  by (simp add: run_etl_pipeline_merge unhashable_id_phases merge_models_step ident_def)

text \<open>
  C2, as amended. Last write wins: when a record \<open>r1\<close> of phase \<open>i\<close> and a record \<open>r2\<close> of
  a later phase \<open>j\<close> share an identifier, the final collection holds one record with
  that identifier, it is the last record processed for the identifier, and it comes from
  phase \<open>j\<close> or from a later phase. It is \<open>r2\<close> itself when \<open>r2\<close> is the only record that
  phase \<open>j\<close> and the phases after it return for the identifier. And when the phases
  return \<^verbatim>\<open>[{"id":"a","downloads":10}]\<close>, \<^verbatim>\<open>[{"id":"a","downloads":0,"likes":99}]\<close>, \<^verbatim>\<open>[]\<close>
  and \<^verbatim>\<open>[{"id":"b"}]\<close>, the final collection is the second record for \<^verbatim>\<open>a\<close>, then the
  record for \<^verbatim>\<open>b\<close>.
\<close>

theorem last_write_wins:
  "(fst (run_etl_pipeline http s) = Inr out \<and> i < j \<and> j < 4
      \<and> r1 \<in> set (phase_results http s ! i) \<and> r2 \<in> set (phase_results http s ! j)
      \<and> ident r1 = ident r2
    \<longrightarrow> (\<exists>r. filter (\<lambda>m. ident m = ident r2) out = [r]
             \<and> r \<in> set (concat (drop j (phase_results http s)))
             \<and> r = last (filter (\<lambda>m. ident m = ident r2) (all_records http s))))
   \<and> (fst (run_etl_pipeline http s) = Inr out \<and> i < j \<and> j < 4
      \<and> r1 \<in> set (phase_results http s ! i) \<and> r2 \<in> set (phase_results http s ! j)
      \<and> ident r1 = ident r2
      \<and> list_all (\<lambda>m. ident m = ident r2 \<longrightarrow> m = r2) (concat (drop j (phase_results http s)))
    \<longrightarrow> filter (\<lambda>m. ident m = ident r2) out = [r2])
   \<and> (phase_results http s = [[record_a1], [record_a2], [], [record_b]]
    \<longrightarrow> fst (run_etl_pipeline http s) = Inr [record_a2, record_b])"
proof (intro conjI impI)
  assume a: "fst (run_etl_pipeline http s) = Inr out \<and> i < j \<and> j < 4
      \<and> r1 \<in> set (phase_results http s ! i) \<and> r2 \<in> set (phase_results http s ! j)
      \<and> ident r1 = ident r2"
  then have out: "fst (run_etl_pipeline http s) = Inr out" and j: "j < 4"
    and r2: "r2 \<in> set (phase_results http s ! j)"
    by simp_all
  from run_etl_pipeline_kept [OF out j r2]
  show "\<exists>r. filter (\<lambda>m. ident m = ident r2) out = [r]
      \<and> r \<in> set (concat (drop j (phase_results http s)))
      \<and> r = last (filter (\<lambda>m. ident m = ident r2) (all_records http s))"
    by blast
next
  assume a: "fst (run_etl_pipeline http s) = Inr out \<and> i < j \<and> j < 4
      \<and> r1 \<in> set (phase_results http s ! i) \<and> r2 \<in> set (phase_results http s ! j)
      \<and> ident r1 = ident r2
      \<and> list_all (\<lambda>m. ident m = ident r2 \<longrightarrow> m = r2) (concat (drop j (phase_results http s)))"
  let ?late = "concat (drop j (phase_results http s))"
  let ?P = "\<lambda>m. ident m = ident r2"
  from a have out: "fst (run_etl_pipeline http s) = Inr out" and j: "j < 4"
    and r2: "r2 \<in> set (phase_results http s ! j)"
    and same: "\<forall>m \<in> set ?late. ?P m \<longrightarrow> m = r2"
    by (simp_all add: list_all_iff)
  note kept = run_etl_pipeline_kept [OF out j r2]
  from same kept(3) kept(4) have "last (filter ?P ?late) = r2" by blast
  with kept(1) show "filter ?P out = [r2]" by simp
next
  assume "phase_results http s = [[record_a1], [record_a2], [], [record_b]]"
  then show "fst (run_etl_pipeline http s) = Inr [record_a2, record_b]"
    by (simp add: run_etl_pipeline_merge merge_models_step)
qed

theorem last_write_wins_witness:
  "phase_results scripted scenario = [[record_a1], [record_a2], [], [record_b]]
   \<and> fst (run_etl_pipeline scripted scenario) = Inr [record_a2, record_b]
   \<and> filter (\<lambda>m. ident m = ident record_a2) [record_a2, record_b] = [record_a2]
   \<and> fst (run_etl_pipeline scripted three_phases) = Inr [record_a3]
   \<and> record_a3 \<in> set (concat (drop 1 (phase_results scripted three_phases)))"
proof -
  have r: "fst (run_etl_pipeline scripted scenario) = Inr [record_a2, record_b]"
    using last_write_wins [of scripted scenario] by (simp add: scenario_phases)
  have k: "filter (\<lambda>m. ident m = ident record_a2) [record_a2, record_b] = [record_a2]"
    using last_write_wins [of scripted scenario "[record_a2, record_b]" 0 1 record_a1 record_a2] r
    by (simp add: scenario_phases)
  have t: "fst (run_etl_pipeline scripted three_phases) = Inr [record_a3]"
    by (simp add: run_etl_pipeline_merge three_phases_phases merge_models_step)
  from r k t show ?thesis by (simp add: scenario_phases three_phases_phases)
qed

text \<open>
  Where C2 fails as stated: three phases return a record for \<^verbatim>\<open>a\<close>. The records of
  the first two phases share the identifier, and the final collection holds neither the
  one from the later of these two phases nor the other, but the record of the third.
\<close>

theorem later_of_two_is_overwritten:
  "phase_results scripted three_phases = [[record_a1], [record_a2], [record_a3], []]
   \<and> ident record_a1 = ident record_a2
   \<and> fst (run_etl_pipeline scripted three_phases) = Inr [record_a3]
   \<and> record_a3 \<noteq> record_a2"
  by (simp add: run_etl_pipeline_merge three_phases_phases merge_models_step)
    (simp add: record_a3_def record_a2_def)

text \<open>
  C9. The returned collection lists the identifiers in the order of their first
  occurrence across the phases, and the record at the place of an identifier is the last
  one processed for it: an overwrite keeps the place of the identifier.
\<close>

theorem first_occurrence_order:
  assumes "fst (run_etl_pipeline http s) = Inr out"
  shows "map ident out = first_seen (map ident (all_records http s))
       \<and> out = map (\<lambda>i. last (filter (\<lambda>m. ident m = i) (all_records http s)))
                   (first_seen (map ident (all_records http s)))"
  using run_etl_pipeline_idents [OF assms] run_etl_pipeline_output [OF assms] by simp

theorem first_occurrence_order_witness:
  "fst (run_etl_pipeline scripted overwritten) = Inr [record_a2, record_b]
   \<and> all_records scripted overwritten = [record_a1, record_b, record_a2]
   \<and> map ident [record_a2, record_b] = first_seen (map ident [record_a1, record_b, record_a2])"
proof -
  have r: "fst (run_etl_pipeline scripted overwritten) = Inr [record_a2, record_b]"
    by (simp add: run_etl_pipeline_merge overwritten_phases merge_models_step)
  have a: "all_records scripted overwritten = [record_a1, record_b, record_a2]"
    by (simp add: all_records_def overwritten_phases)
  from first_occurrence_order [OF r] r a show ?thesis by simp
qed

text \<open>
  C6. A record whose identifier field is missing or null is stored under the key
  \<^verbatim>\<open>None\<close>; a second such record replaces the first; and the final collection holds at
  most one such record, the last one processed.
\<close>

theorem missing_identifiers_collide:
  "(no_identifier m \<longrightarrow> merge_models um (m # rest) = merge_models (dict_store um KNone m) rest)
   \<and> (no_identifier m \<and> no_identifier m' \<longrightarrow> merge_models um [m, m'] = merge_models um [m'])
   \<and> (fst (run_etl_pipeline http s) = Inr out \<longrightarrow>
        filter no_identifier out =
          (if list_ex no_identifier (all_records http s)
           then [last (filter no_identifier (all_records http s))] else []))"
proof (intro conjI impI)
  assume "no_identifier m"
  then show "merge_models um (m # rest) = merge_models (dict_store um KNone m) rest"
    by (simp add: no_identifier_iff merge_models_step)
next
  assume "no_identifier m \<and> no_identifier m'"
  then show "merge_models um [m, m'] = merge_models um [m']"
    by (simp add: no_identifier_iff merge_models_step dict_store_twice)
next
  assume out: "fst (run_etl_pipeline http s) = Inr out"
  have f: "filter no_identifier xs = filter (\<lambda>m. ident m = Inr KNone) xs" for xs
    by (rule filter_cong [OF refl]) (simp add: no_identifier_iff)
  have e: "list_ex no_identifier (all_records http s) \<longleftrightarrow>
      Inr KNone \<in> set (map ident (all_records http s))"
    by (simp add: list_ex_iff no_identifier_iff image_iff) (metis)
  show "filter no_identifier out =
      (if list_ex no_identifier (all_records http s)
       then [last (filter no_identifier (all_records http s))] else [])"
    unfolding f e by (rule run_etl_pipeline_filter [OF out])
qed

theorem missing_identifiers_collide_witness:
  "no_identifier (JObj [(''likes'', JInt 1)])
   \<and> no_identifier (JObj [(''id'', JNull), (''likes'', JInt 2)])
   \<and> merge_models [] [JObj [(''likes'', JInt 1)], JObj [(''id'', JNull), (''likes'', JInt 2)]] =
       Inr [(KNone, JObj [(''id'', JNull), (''likes'', JInt 2)])]
   \<and> fst (run_etl_pipeline scripted nameless) =
       Inr [JObj [(''id'', JNull), (''likes'', JInt 2)], record_b]
   \<and> filter no_identifier [JObj [(''id'', JNull), (''likes'', JInt 2)], record_b] =
       [JObj [(''id'', JNull), (''likes'', JInt 2)]]"
proof -
  let ?m1 = "JObj [(''likes'', JInt 1)]" and ?m2 = "JObj [(''id'', JNull), (''likes'', JInt 2)]"
  have n: "no_identifier ?m1" "no_identifier ?m2" by simp_all
  have i: "ident ?m1 = Inr KNone" "ident ?m2 = Inr KNone"
    by (simp_all add: ident_def)
  have r: "fst (run_etl_pipeline scripted nameless) = Inr [?m2, record_b]"
    by (simp add: run_etl_pipeline_merge nameless_phases merge_models_step i)
  have a: "all_records scripted nameless = [?m1, record_b, ?m2]"
    by (simp add: all_records_def nameless_phases)
  from missing_identifiers_collide [of ?m1 "[]" "[]" ?m2 scripted nameless "[?m2, record_b]"] n r
  show ?thesis
    by (simp add: a merge_models_step i record_b_def)
qed

section \<open>Properties of the fetch strategies and of the requests sent\<close>

lemma logger_fields [simp]:
  "timeout (logger m s) = timeout s" "headers (logger m s) = headers s"
  "world (logger m s) = world s" "sent (logger m s) = sent s"
  by (simp_all add: logger_def)

lemma global_request_logger [simp]:
  "global_request (logger m s) limit sort_by = global_request s limit sort_by"
  by (simp add: global_request_def)

lemma fetch_global_top_models_fields [simp]:
  "timeout (snd (fetch_global_top_models http limit sort_by s)) = timeout s"
  "headers (snd (fetch_global_top_models http limit sort_by s)) = headers s"
  "sent (snd (fetch_global_top_models http limit sort_by s)) =
     sent s @ [global_request s limit sort_by]"
  by (simp_all add: fetch_global_top_models_def requests_get_def logger_def global_request_def
      Let_def split: prod.splits sum.splits exn.splits json.splits)

lemma fetch_global_top_models_fst:
  "fst (fetch_global_top_models http limit sort_by s) =
     (case checked_json (fst (http (global_request s limit sort_by) (world s))) of
        Inl e \<Rightarrow> []
      | Inr data \<Rightarrow> (case data of JList xs \<Rightarrow> xs | _ \<Rightarrow> []))"
  by (simp add: fetch_global_top_models_def requests_get_def logger_def global_request_def
      Let_def split: prod.splits sum.splits exn.splits json.splits)

lemma fetch_failed_empty:
  "fetch_failed (fst (http (global_request s limit sort_by) (world s))) \<Longrightarrow>
   fst (fetch_global_top_models http limit sort_by s) = []"
  by (auto simp: fetch_global_top_models_fst fetch_failed_def split: sum.splits json.splits)

lemma fetch_category_specific_fields [simp]:
  "timeout (snd (fetch_category_specific http tag library limit s)) = timeout s"
  "headers (snd (fetch_category_specific http tag library limit s)) = headers s"
  "sent (snd (fetch_category_specific http tag library limit s)) =
     sent s @ [category_request s tag library limit]"
  by (simp_all add: fetch_category_specific_def requests_get_def logger_def
      split: prod.splits sum.splits)

lemma fetch_category_specific_fst:
  "fst (fetch_category_specific http tag library limit s) =
     (case checked_json (fst (http (category_request s tag library limit) (world s))) of
        Inl e \<Rightarrow> JList []
      | Inr data \<Rightarrow> data)"
  by (simp add: fetch_category_specific_def requests_get_def split: prod.splits sum.splits)

lemma fetch_category_specific_timeout:
  "req_timeout (category_request s tag library limit) = 25"
  by (simp add: category_request_def)

lemma run_etl_pipeline_fields [simp]:
  "timeout (snd (run_etl_pipeline http s)) = timeout s"
  "headers (snd (run_etl_pipeline http s)) = headers s"
  by (simp_all add: run_etl_pipeline_def case_prod_beta split: sum.splits)

lemma run_etl_pipeline_sent:
  "sent (snd (run_etl_pipeline http s)) = sent s @ take 1 (pipeline_requests s)
   \<or> sent (snd (run_etl_pipeline http s)) = sent s @ take 2 (pipeline_requests s)
   \<or> sent (snd (run_etl_pipeline http s)) = sent s @ take 3 (pipeline_requests s)
   \<or> sent (snd (run_etl_pipeline http s)) = sent s @ pipeline_requests s"
  by (simp add: run_etl_pipeline_def pipeline_requests_def global_request_def case_prod_beta
      split: sum.splits)

lemma run_etl_pipeline_sent_all:
  assumes "list_all mergeable (concat (take 3 (phase_results http s)))"
  shows "sent (snd (run_etl_pipeline http s)) = sent s @ pipeline_requests s"
proof -
  let ?f1 = "fetch_global_top_models http 1000 ''downloads'' (logger (PhaseStarted 1) s)"
  let ?f2 = "fetch_global_top_models http 1000 ''likes'' (logger (PhaseStarted 2) (snd ?f1))"
  let ?f3 = "fetch_global_top_models http 1000 ''likes7d'' (logger (PhaseStarted 3) (snd ?f2))"
  from assms have "\<forall>m \<in> set (fst ?f1 @ fst ?f2 @ fst ?f3). \<exists>k. ident m = Inr k"
    by (simp add: phase_results_def case_prod_beta list_all_iff mergeable_iff ball_Un)
  with merge_models_returns [of "[]" "fst ?f1 @ fst ?f2 @ fst ?f3"]
  obtain u3 where "merge_models [] (fst ?f1 @ fst ?f2 @ fst ?f3) = Inr u3"
    by blast
  then obtain u1 u2 where "merge_models [] (fst ?f1) = Inr u1"
    and "merge_models u1 (fst ?f2) = Inr u2" and "merge_models u2 (fst ?f3) = Inr u3"
    by (auto simp: merge_models_append split: sum.splits)
  then show ?thesis
    by (simp add: run_etl_pipeline_def pipeline_requests_def global_request_def case_prod_beta
        split: sum.splits)
qed

lemma merge_models_raises:
  "\<not> list_all mergeable xs \<Longrightarrow> \<exists>e. merge_models um xs = Inl e"
proof -
  assume "\<not> list_all mergeable xs"
  then have "\<not> (\<forall>m \<in> set xs. \<exists>k. ident m = Inr k)"
    by (simp add: list_all_iff mergeable_iff)
  with merge_models_returns [of um xs] have "\<not> (\<exists>um'. merge_models um xs = Inr um')"
    by blast
  then show ?thesis by (cases "merge_models um xs") auto
qed

lemma merge_models_stores:
  "list_all mergeable xs \<Longrightarrow> \<exists>um'. merge_models um xs = Inr um'"
  by (simp add: merge_models_returns list_all_iff mergeable_iff)

lemma phase_results_nth:
  "phase_results http s ! 0 =
     fst (fetch_global_top_models http 1000 ''downloads'' (logger (PhaseStarted 1) s))"
  "phase_results http s ! 1 =
     fst (fetch_global_top_models http 1000 ''likes'' (logger (PhaseStarted 2)
       (snd (fetch_global_top_models http 1000 ''downloads'' (logger (PhaseStarted 1) s)))))"
  "phase_results http s ! 2 =
     fst (fetch_global_top_models http 1000 ''likes7d'' (logger (PhaseStarted 3)
       (snd (fetch_global_top_models http 1000 ''likes'' (logger (PhaseStarted 2)
         (snd (fetch_global_top_models http 1000 ''downloads'' (logger (PhaseStarted 1) s))))))))"
  by (simp_all add: phase_results_def case_prod_beta)

lemma run_etl_pipeline_stops_1:
  assumes "\<not> list_all mergeable (phase_results http s ! 0)"
  shows "sent (snd (run_etl_pipeline http s)) = sent s @ take 1 (pipeline_requests s)
       \<and> (\<exists>e. fst (run_etl_pipeline http s) = Inl e)"
proof -
  from merge_models_raises [OF assms, of "[]"] obtain e
    where "merge_models [] (phase_results http s ! 0) = Inl e" ..
  then show ?thesis
    by (simp add: phase_results_nth run_etl_pipeline_def pipeline_requests_def
        global_request_def case_prod_beta)
qed

lemma run_etl_pipeline_stops_2:
  assumes "list_all mergeable (phase_results http s ! 0)"
    and "\<not> list_all mergeable (phase_results http s ! 1)"
  shows "sent (snd (run_etl_pipeline http s)) = sent s @ take 2 (pipeline_requests s)
       \<and> (\<exists>e. fst (run_etl_pipeline http s) = Inl e)"
proof -
  from merge_models_stores [OF assms(1), of "[]"] obtain u1
    where 1: "merge_models [] (phase_results http s ! 0) = Inr u1" ..
  from merge_models_raises [OF assms(2), of u1] obtain e
    where 2: "merge_models u1 (phase_results http s ! 1) = Inl e" ..
  show ?thesis
    using 1 2 unfolding phase_results_nth
    by (simp add: run_etl_pipeline_def pipeline_requests_def global_request_def case_prod_beta)
qed

lemma run_etl_pipeline_stops_3:
  assumes "list_all mergeable (phase_results http s ! 0)"
    and "list_all mergeable (phase_results http s ! 1)"
    and "\<not> list_all mergeable (phase_results http s ! 2)"
  shows "sent (snd (run_etl_pipeline http s)) = sent s @ take 3 (pipeline_requests s)
       \<and> (\<exists>e. fst (run_etl_pipeline http s) = Inl e)"
proof -
  from merge_models_stores [OF assms(1), of "[]"] obtain u1
    where 1: "merge_models [] (phase_results http s ! 0) = Inr u1" ..
  from merge_models_stores [OF assms(2), of u1] obtain u2
    where 2: "merge_models u1 (phase_results http s ! 1) = Inr u2" ..
  from merge_models_raises [OF assms(3), of u2] obtain e
    where 3: "merge_models u2 (phase_results http s ! 2) = Inl e" ..
  show ?thesis
    using 1 2 3 unfolding phase_results_nth
    by (simp add: run_etl_pipeline_def pipeline_requests_def global_request_def case_prod_beta)
qed

text \<open>
  C5. When the call of \<^verbatim>\<open>fetch_global_top_models\<close> returns a response with a 2xx status
  whose decoded body is not a list, the method returns the empty list: it neither raises
  nor returns the body.
\<close>

theorem non_list_body_is_empty:
  assumes "http (global_request s limit sort_by) (world s) = (Returns r, w)"
    and "200 \<le> status_code r" and "status_code r < 300"
    and "body r = Some data" and "\<not> is_list data"
  shows "fst (fetch_global_top_models http limit sort_by s) = []"
  using assms
  by (cases data)
    (simp_all add: fetch_global_top_models_fst checked_json_def raise_for_status_def
      response_json_def)

theorem non_list_body_is_empty_witness:
  "scripted (global_request error_object 1000 ''downloads'') (world error_object) =
     (Returns \<lparr>status_code = 200,
               body = Some (JObj [(''error'', JStr ''Invalid username or password.'')])\<rparr>, [])
   \<and> \<not> is_list (JObj [(''error'', JStr ''Invalid username or password.'')])
   \<and> fst (fetch_global_top_models scripted 1000 ''downloads'' error_object) = []"
proof -
  let ?r = "\<lparr>status_code = 200,
             body = Some (JObj [(''error'', JStr ''Invalid username or password.'')])\<rparr>"
  have h: "scripted (global_request error_object 1000 ''downloads'') (world error_object) =
      (Returns ?r, [])"
    by (simp add: error_object_def ModelFetcher_init_def ok_def)
  have "fst (fetch_global_top_models scripted 1000 ''downloads'' error_object) = []"
    using non_list_body_is_empty [of scripted error_object 1000 "''downloads''" ?r "[]"
        "JObj [(''error'', JStr ''Invalid username or password.'')]"] h
    by simp
  with h show ?thesis by simp
qed

text \<open>
  C4. When each of the four fetches yields its failure result, the empty list,
  \<^verbatim>\<open>run_etl_pipeline\<close> returns the empty collection and raises nothing; and when the
  remote end fails every call, each of the four fetches does yield the empty list.
\<close>

theorem total_failure_is_empty:
  "(phase_results http s = [[], [], [], []] \<longrightarrow> fst (run_etl_pipeline http s) = Inr [])
   \<and> ((\<forall>r w. fetch_failed (fst (http r w))) \<longrightarrow> phase_results http s = [[], [], [], []])"
proof (intro conjI impI)
  assume "phase_results http s = [[], [], [], []]"
  then show "fst (run_etl_pipeline http s) = Inr []"
    by (simp add: run_etl_pipeline_merge)
next
  assume "\<forall>r w. fetch_failed (fst (http r w))"
  then have "fst (fetch_global_top_models http limit sort_by s') = []" for limit sort_by s'
    by (simp add: fetch_failed_empty)
  then show "phase_results http s = [[], [], [], []]"
    by (simp add: phase_results_def case_prod_beta)
qed

theorem total_failure_is_empty_witness:
  "(\<forall>r w. fetch_failed (fst (unreachable r w)))
   \<and> phase_results unreachable (ModelFetcher_init None 45 ()) = [[], [], [], []]
   \<and> fst (run_etl_pipeline unreachable (ModelFetcher_init None 45 ())) = Inr []"
proof -
  have f: "\<forall>r w. fetch_failed (fst (unreachable r w))"
    by (simp add: unreachable_def fetch_failed_def checked_json_def)
  with total_failure_is_empty [of unreachable "ModelFetcher_init None 45 ()"]
  show ?thesis by simp
qed

text \<open>
  C7, as amended. A global fetch sends one request, with the parameters \<^verbatim>\<open>limit\<close>,
  \<^verbatim>\<open>sort\<close>, \<^verbatim>\<open>direction = -1\<close> and \<^verbatim>\<open>full = True\<close>. The pipeline sends its requests in the
  fixed order (1000 by downloads, 1000 by likes, 1000 by likes7d, 100 by createdAt). It
  sends all four when the records of the first three phases are mergeable, in particular
  whenever it returns. Otherwise it raises and stops after the first phase that returned
  a record that is not mergeable: it has sent the requests up to that phase and no other.
\<close>

theorem pipeline_requests_in_order:
  "sent (snd (fetch_global_top_models http limit sort_by s)) =
     sent s @ [\<lparr>url = BASE_URL,
                params = [(''limit'', JInt limit), (''sort'', JStr sort_by),
                          (''direction'', JInt (- 1)), (''full'', JBool True)],
                req_headers = headers s, req_timeout = timeout s\<rparr>]
   \<and> pipeline_requests s =
       [global_request s 1000 ''downloads'', global_request s 1000 ''likes'',
        global_request s 1000 ''likes7d'', global_request s 100 ''createdAt'']
   \<and> (\<exists>n. 1 \<le> n \<and> n \<le> 4
          \<and> sent (snd (run_etl_pipeline http s)) = sent s @ take n (pipeline_requests s))
   \<and> (list_all mergeable (concat (take 3 (phase_results http s)))
        \<longrightarrow> sent (snd (run_etl_pipeline http s)) = sent s @ pipeline_requests s)
   \<and> (fst (run_etl_pipeline http s) = Inr out
        \<longrightarrow> sent (snd (run_etl_pipeline http s)) = sent s @ pipeline_requests s)
   \<and> (\<not> list_all mergeable (phase_results http s ! 0)
        \<longrightarrow> sent (snd (run_etl_pipeline http s)) = sent s @ take 1 (pipeline_requests s)
            \<and> (\<exists>e. fst (run_etl_pipeline http s) = Inl e))
   \<and> (list_all mergeable (phase_results http s ! 0)
        \<and> \<not> list_all mergeable (phase_results http s ! 1)
        \<longrightarrow> sent (snd (run_etl_pipeline http s)) = sent s @ take 2 (pipeline_requests s)
            \<and> (\<exists>e. fst (run_etl_pipeline http s) = Inl e))
   \<and> (list_all mergeable (phase_results http s ! 0)
        \<and> list_all mergeable (phase_results http s ! 1)
        \<and> \<not> list_all mergeable (phase_results http s ! 2)
        \<longrightarrow> sent (snd (run_etl_pipeline http s)) = sent s @ take 3 (pipeline_requests s)
            \<and> (\<exists>e. fst (run_etl_pipeline http s) = Inl e))"
proof (intro conjI)
  show "sent (snd (fetch_global_top_models http limit sort_by s)) =
     sent s @ [\<lparr>url = BASE_URL,
                params = [(''limit'', JInt limit), (''sort'', JStr sort_by),
                          (''direction'', JInt (- 1)), (''full'', JBool True)],
                req_headers = headers s, req_timeout = timeout s\<rparr>]"
    by (simp add: global_request_def)
next
  show "pipeline_requests s =
       [global_request s 1000 ''downloads'', global_request s 1000 ''likes'',
        global_request s 1000 ''likes7d'', global_request s 100 ''createdAt'']"
    by (simp add: pipeline_requests_def)
next
  have four: "take 4 (pipeline_requests s) = pipeline_requests s"
    by (simp add: pipeline_requests_def)
  from run_etl_pipeline_sent [of http s]
  show "\<exists>n. 1 \<le> n \<and> n \<le> 4
      \<and> sent (snd (run_etl_pipeline http s)) = sent s @ take n (pipeline_requests s)"
  proof (elim disjE)
    assume "sent (snd (run_etl_pipeline http s)) = sent s @ take 1 (pipeline_requests s)"
    then show ?thesis by (intro exI [of _ 1]) simp
  next
    assume "sent (snd (run_etl_pipeline http s)) = sent s @ take 2 (pipeline_requests s)"
    then show ?thesis by (intro exI [of _ 2]) simp
  next
    assume "sent (snd (run_etl_pipeline http s)) = sent s @ take 3 (pipeline_requests s)"
    then show ?thesis by (intro exI [of _ 3]) simp
  next
    assume "sent (snd (run_etl_pipeline http s)) = sent s @ pipeline_requests s"
    with four show ?thesis by (intro exI [of _ 4]) simp
  qed
next
  show "list_all mergeable (concat (take 3 (phase_results http s)))
      \<longrightarrow> sent (snd (run_etl_pipeline http s)) = sent s @ pipeline_requests s"
    by (intro impI) (rule run_etl_pipeline_sent_all)
next
  show "fst (run_etl_pipeline http s) = Inr out
      \<longrightarrow> sent (snd (run_etl_pipeline http s)) = sent s @ pipeline_requests s"
  proof
    assume "fst (run_etl_pipeline http s) = Inr out"
    then have "\<forall>m \<in> set (all_records http s). \<exists>k. ident m = Inr k"
      unfolding run_etl_pipeline_returns [symmetric] by blast
    then have "list_all mergeable (concat (take 3 (phase_results http s)))"
      by (simp add: all_records_def phase_results_def case_prod_beta list_all_iff mergeable_iff
          ball_Un)
    then show "sent (snd (run_etl_pipeline http s)) = sent s @ pipeline_requests s"
      by (rule run_etl_pipeline_sent_all)
  qed
next
  show "\<not> list_all mergeable (phase_results http s ! 0)
      \<longrightarrow> sent (snd (run_etl_pipeline http s)) = sent s @ take 1 (pipeline_requests s)
          \<and> (\<exists>e. fst (run_etl_pipeline http s) = Inl e)"
    by (intro impI) (rule run_etl_pipeline_stops_1)
next
  show "list_all mergeable (phase_results http s ! 0)
      \<and> \<not> list_all mergeable (phase_results http s ! 1)
      \<longrightarrow> sent (snd (run_etl_pipeline http s)) = sent s @ take 2 (pipeline_requests s)
          \<and> (\<exists>e. fst (run_etl_pipeline http s) = Inl e)"
    by (intro impI, elim conjE) (rule run_etl_pipeline_stops_2)
next
  show "list_all mergeable (phase_results http s ! 0)
      \<and> list_all mergeable (phase_results http s ! 1)
      \<and> \<not> list_all mergeable (phase_results http s ! 2)
      \<longrightarrow> sent (snd (run_etl_pipeline http s)) = sent s @ take 3 (pipeline_requests s)
          \<and> (\<exists>e. fst (run_etl_pipeline http s) = Inl e)"
    by (intro impI, elim conjE) (rule run_etl_pipeline_stops_3)
qed

theorem pipeline_requests_in_order_witness:
  "list_all mergeable (concat (take 3 (phase_results scripted scenario)))
   \<and> sent (snd (run_etl_pipeline scripted scenario)) = pipeline_requests scenario
   \<and> map params (pipeline_requests scenario) =
       [[(''limit'', JInt 1000), (''sort'', JStr ''downloads''),
         (''direction'', JInt (- 1)), (''full'', JBool True)],
        [(''limit'', JInt 1000), (''sort'', JStr ''likes''),
         (''direction'', JInt (- 1)), (''full'', JBool True)],
        [(''limit'', JInt 1000), (''sort'', JStr ''likes7d''),
         (''direction'', JInt (- 1)), (''full'', JBool True)],
        [(''limit'', JInt 100), (''sort'', JStr ''createdAt''),
         (''direction'', JInt (- 1)), (''full'', JBool True)]]
   \<and> list_all mergeable (phase_results scripted bad_second_phase ! 0)
   \<and> \<not> list_all mergeable (phase_results scripted bad_second_phase ! 1)
   \<and> sent (snd (run_etl_pipeline scripted bad_second_phase)) =
       [global_request bad_second_phase 1000 ''downloads'',
        global_request bad_second_phase 1000 ''likes'']"
proof -
  have m: "list_all mergeable (concat (take 3 (phase_results scripted scenario)))"
    by (simp add: scenario_phases mergeable_def)
  have e: "sent scenario = []"
    by (simp add: scenario_def ModelFetcher_init_def)
  have b0: "list_all mergeable (phase_results scripted bad_second_phase ! 0)"
    by (simp add: bad_second_phase_phases mergeable_def)
  have b1: "\<not> list_all mergeable (phase_results scripted bad_second_phase ! 1)"
    by (simp add: bad_second_phase_phases mergeable_def ident_def)
  note b = b0 b1
  have e': "sent bad_second_phase = []"
    by (simp add: bad_second_phase_def ModelFetcher_init_def)
  from pipeline_requests_in_order [of scripted 1000 "''downloads''" scenario "[]"] m e
  have 1: "sent (snd (run_etl_pipeline scripted scenario)) = pipeline_requests scenario"
    by simp
  from pipeline_requests_in_order [of scripted 1000 "''downloads''" bad_second_phase "[]"] b e'
  have 2: "sent (snd (run_etl_pipeline scripted bad_second_phase)) =
      take 2 (pipeline_requests bad_second_phase)"
    by simp
  from m b 1 2 show ?thesis
    by (simp add: pipeline_requests_def global_request_def)
qed

text \<open>
  Where C7 fails as stated: the first phase returns \<^verbatim>\<open>["a"]\<close>, \<^verbatim>\<open>model.get\<close> raises
  \<^verbatim>\<open>AttributeError\<close> in the first loop, and only the first request is ever sent.
\<close>

theorem pipeline_stops_at_bad_record:
  "fst (run_etl_pipeline scripted not_a_mapping) = Inl AttributeError
   \<and> sent (snd (run_etl_pipeline scripted not_a_mapping)) =
       [global_request not_a_mapping 1000 ''downloads'']"
  by (simp add: run_etl_pipeline_def not_a_mapping_def ModelFetcher_init_def
      fetch_global_top_models_scripted logger_def merge_models_step ident_def
      global_request_def)

text \<open>
  C10. None of the three methods changes \<^verbatim>\<open>self.timeout\<close> or \<^verbatim>\<open>self.headers\<close>, and what
  \<^verbatim>\<open>run_etl_pipeline\<close> returns depends on the phase results only: two calls, on any
  fetchers in any states, with the same phase results return the same.
\<close>

theorem configuration_unchanged:
  "timeout (snd (fetch_global_top_models http limit sort_by s)) = timeout s
   \<and> headers (snd (fetch_global_top_models http limit sort_by s)) = headers s
   \<and> timeout (snd (fetch_category_specific http tag library limit' s)) = timeout s
   \<and> headers (snd (fetch_category_specific http tag library limit' s)) = headers s
   \<and> timeout (snd (run_etl_pipeline http s)) = timeout s
   \<and> headers (snd (run_etl_pipeline http s)) = headers s
   \<and> (phase_results http s = phase_results http' s'
        \<longrightarrow> fst (run_etl_pipeline http s) = fst (run_etl_pipeline http' s'))"
  by (simp add: run_etl_pipeline_merge)

theorem configuration_unchanged_witness:
  "phase_results scripted scenario = phase_results scripted scenario_with_token
   \<and> fst (run_etl_pipeline scripted scenario) = fst (run_etl_pipeline scripted scenario_with_token)
   \<and> timeout (snd (run_etl_pipeline scripted scenario_with_token)) = 10
   \<and> headers (snd (run_etl_pipeline scripted scenario_with_token)) =
       [(''Authorization'', ''Bearer hf_token'')]"
proof -
  have p: "phase_results scripted scenario_with_token = [[record_a1], [record_a2], [], [record_b]]"
    by (simp add: phase_results_def scenario_with_token_def ModelFetcher_init_def
        fetch_global_top_models_scripted logger_def)
  have c: "timeout scenario_with_token = 10"
    "headers scenario_with_token = [(''Authorization'', ''Bearer hf_token'')]"
    by (simp_all add: scenario_with_token_def ModelFetcher_init_def)
  from configuration_unchanged [of scripted 1000 "''downloads''" scenario_with_token
      "''text-generation''" "''pytorch''" 200 scripted scenario] p c
  show ?thesis
    by (simp add: scenario_phases)
qed

text \<open>
  C3. The targeted fetch against a remote end that answers 200 with an error object:
  \<^verbatim>\<open>fetch_category_specific\<close> returns the object itself, not the empty list. What it
  absorbs, and its fixed timeout, are the lemmas \<open>fetch_category_specific_fst\<close> and
  \<open>fetch_category_specific_timeout\<close>.
\<close>

theorem fetch_category_specific_returns_error_object:
  "fst (fetch_category_specific scripted ''text-generation'' ''pytorch'' 200 error_object) =
     JObj [(''error'', JStr ''Invalid username or password.'')]"
  by (simp add: fetch_category_specific_fst error_object_def ModelFetcher_init_def ok_def
      checked_json_def raise_for_status_def response_json_def)

section \<open>Properties of the schema\<close>




end
